theory Spec2Isabelle
  imports Complex_Main "HOL-Library.Word"
begin

unbundle bit_operations_syntax

section \<open>The value representation of the Rush runtime\<close>

text \<open>
  The runtime (\<^verbatim>\<open>runtime.c\<close>) passes every datum as a \<^verbatim>\<open>RushObject\<close>: an \<^verbatim>\<open>int\<close>
  discriminant and one \<^verbatim>\<open>long long\<close> of payload. The discriminant is a plain \<^verbatim>\<open>int\<close>
  field, so it can hold any 32-bit pattern, not only the five ordinals of
  \<^verbatim>\<open>RushObjectType\<close>; the model keeps it a 32-bit word for that reason.
\<close>

type_synonym c_int = "32 word"
type_synonym long_long = "64 word"

definition RUSH_NULL :: c_int where "RUSH_NULL = 0"
definition RUSH_INTEGER :: c_int where "RUSH_INTEGER = 1"
definition RUSH_FLOAT :: c_int where "RUSH_FLOAT = 2"
definition RUSH_BOOLEAN :: c_int where "RUSH_BOOLEAN = 3"
definition RUSH_STRING :: c_int where "RUSH_STRING = 4"

lemmas RushObjectType_defs =
  RUSH_NULL_def RUSH_INTEGER_def RUSH_FLOAT_def RUSH_BOOLEAN_def RUSH_STRING_def

record RushObject =
  obj_type :: c_int
  obj_value :: long_long

section \<open>IEEE-754 binary64\<close>

text \<open>
  A C \<^verbatim>\<open>double\<close> is an IEEE-754 binary64 datum: a sign bit, an 11-bit biased exponent and
  a 52-bit fraction. The runtime moves doubles in and out of the payload by reading the
  same eight bytes at another type (\<^verbatim>\<open>*(long long*)&value\<close>, \<^verbatim>\<open>*(double*)&obj.value\<close>),
  which is the binary64 interchange encoding: sign in bit 63, exponent in bits 62 to 52,
  fraction in bits 51 to 0.
\<close>

record double =
  d_sign :: "1 word"
  d_exponent :: "11 word"
  d_fraction :: "52 word"

definition bits_of_double :: "double \<Rightarrow> long_long" where
  "bits_of_double d =
     push_bit 63 (ucast (d_sign d)) OR push_bit 52 (ucast (d_exponent d)) OR ucast (d_fraction d)"

definition double_of_bits :: "long_long \<Rightarrow> double" where
  "double_of_bits w =
     \<lparr>d_sign = ucast (drop_bit 63 w), d_exponent = ucast (drop_bit 52 w), d_fraction = ucast w\<rparr>"

definition is_nan :: "double \<Rightarrow> bool" where
  "is_nan d = (d_exponent d = 2047 \<and> d_fraction d \<noteq> 0)"

definition is_infinity :: "double \<Rightarrow> bool" where
  "is_infinity d = (d_exponent d = 2047 \<and> d_fraction d = 0)"

definition is_zero :: "double \<Rightarrow> bool" where
  "is_zero d = (d_exponent d = 0 \<and> d_fraction d = 0)"

definition zero :: "1 word \<Rightarrow> double" where
  "zero s = \<lparr>d_sign = s, d_exponent = 0, d_fraction = 0\<rparr>"

definition infinity :: "1 word \<Rightarrow> double" where
  "infinity s = \<lparr>d_sign = s, d_exponent = 2047, d_fraction = 0\<rparr>"

text \<open>
  The NaN an invalid operation produces, and the quieting of a NaN operand, are those of
  the SSE2 unit of x86-64 (the default NaN has its sign bit set). When both operands are
  NaN, C leaves open which of them the result is, and compilers differ; the operations
  below return the left one. No property below depends on which NaN it is.
\<close>

definition default_nan :: double where
  "default_nan = \<lparr>d_sign = 1, d_exponent = 2047, d_fraction = push_bit 51 1\<rparr>"

definition quiet :: "double \<Rightarrow> double" where
  "quiet d = d\<lparr>d_fraction := d_fraction d OR push_bit 51 1\<rparr>"

text \<open>
  A finite double is \<open>\<plusminus> mantissa * 2 ^ scale\<close>: subnormals (exponent field 0) have no
  hidden bit and the scale of the smallest normals.
\<close>

definition mantissa :: "double \<Rightarrow> int" where
  "mantissa d = (if d_exponent d = 0 then uint (d_fraction d) else 2 ^ 52 + uint (d_fraction d))"

definition scale :: "double \<Rightarrow> int" where
  "scale d = (if d_exponent d = 0 then - 1074 else uint (d_exponent d) - 1075)"

definition signed_mantissa :: "double \<Rightarrow> int" where
  "signed_mantissa d = (if d_sign d = 1 then - mantissa d else mantissa d)"

subsection \<open>Rounding to nearest, ties to even\<close>

text \<open>The number of binary digits of a positive integer.\<close>

function bitlen :: "int \<Rightarrow> int" where
  "bitlen n = (if n \<le> 0 then 0 else 1 + bitlen (n div 2))"
  by pat_completeness auto
termination
  by (relation "measure nat") auto

declare bitlen.simps [simp del]

definition round_nearest_even :: "int \<Rightarrow> int \<Rightarrow> int" where
  "round_nearest_even n d =
     (let q = n div d; r = n mod d
      in if 2 * r < d then q
         else if d < 2 * r then q + 1
         else if even q then q else q + 1)"

definition pack :: "1 word \<Rightarrow> int \<Rightarrow> int \<Rightarrow> double" where
  "pack s k qe =
     (if k < 2 ^ 52 then \<lparr>d_sign = s, d_exponent = 0, d_fraction = of_int k\<rparr>
      else let k' = (if 2 ^ 53 \<le> k then k div 2 else k);
               qe' = (if 2 ^ 53 \<le> k then qe + 1 else qe)
           in if 2047 \<le> qe' + 1075 then infinity s
              else \<lparr>d_sign = s, d_exponent = of_int (qe' + 1075), d_fraction = of_int (k' - 2 ^ 52)\<rparr>)"

text \<open>
  \<open>double_of_ratio s n d\<close> is the double nearest to \<open>\<plusminus> n / d\<close> for positive \<open>n\<close> and
  \<open>d\<close>: \<open>e\<close> is the binary exponent of the quotient, \<open>qe\<close> the weight of the last
  place at that exponent (never below that of the subnormals), \<open>k\<close> the quotient in
  units of \<open>2 ^ qe\<close>, rounded.
\<close>

definition double_of_ratio :: "1 word \<Rightarrow> int \<Rightarrow> int \<Rightarrow> double" where
  "double_of_ratio s n d =
     (let e0 = bitlen n - bitlen d;
          e = (if (if 0 \<le> e0 then d * 2 ^ nat e0 \<le> n else d \<le> n * 2 ^ nat (- e0))
               then e0 else e0 - 1);
          qe = max (e - 52) (- 1074);
          k = (if 0 \<le> qe then round_nearest_even n (d * 2 ^ nat qe)
               else round_nearest_even (n * 2 ^ nat (- qe)) d)
      in pack s k qe)"

definition scaled_double :: "1 word \<Rightarrow> int \<Rightarrow> int \<Rightarrow> double" where
  "scaled_double s m e =
     (if 0 \<le> e then double_of_ratio s (m * 2 ^ nat e) 1 else double_of_ratio s m (2 ^ nat (- e)))"

subsection \<open>The operations of C on doubles\<close>

definition fadd :: "double \<Rightarrow> double \<Rightarrow> double" where
  "fadd x y =
     (if is_nan x then quiet x
      else if is_nan y then quiet y
      else if is_infinity x then
        (if is_infinity y \<and> d_sign x \<noteq> d_sign y then default_nan else x)
      else if is_infinity y then y
      else let e = min (scale x) (scale y);
               t = signed_mantissa x * 2 ^ nat (scale x - e)
                 + signed_mantissa y * 2 ^ nat (scale y - e)
           in if t = 0 then zero (d_sign x AND d_sign y)
              else scaled_double (if t < 0 then 1 else 0) \<bar>t\<bar> e)"

definition fneg :: "double \<Rightarrow> double" where
  "fneg d = d\<lparr>d_sign := d_sign d XOR 1\<rparr>"

definition fsub :: "double \<Rightarrow> double \<Rightarrow> double" where
  "fsub x y =
     (if is_nan x then quiet x
      else if is_nan y then quiet y
      else fadd x (fneg y))"

definition fmul :: "double \<Rightarrow> double \<Rightarrow> double" where
  "fmul x y =
     (let s = d_sign x XOR d_sign y
      in if is_nan x then quiet x
         else if is_nan y then quiet y
         else if is_infinity x \<or> is_infinity y then
           (if is_zero x \<or> is_zero y then default_nan else infinity s)
         else if is_zero x \<or> is_zero y then zero s
         else scaled_double s (mantissa x * mantissa y) (scale x + scale y))"

definition fdiv :: "double \<Rightarrow> double \<Rightarrow> double" where
  "fdiv x y =
     (let s = d_sign x XOR d_sign y
      in if is_nan x then quiet x
         else if is_nan y then quiet y
         else if is_infinity x then (if is_infinity y then default_nan else infinity s)
         else if is_infinity y then zero s
         else if is_zero y then (if is_zero x then default_nan else infinity s)
         else if is_zero x then zero s
         else let e = scale x - scale y
              in if 0 \<le> e then double_of_ratio s (mantissa x * 2 ^ nat e) (mantissa y)
                 else double_of_ratio s (mantissa x) (mantissa y * 2 ^ nat (- e)))"

text \<open>The comparison \<^verbatim>\<open>==\<close>: a NaN equals nothing, the two zeros equal each other.\<close>

definition feq :: "double \<Rightarrow> double \<Rightarrow> bool" where
  "feq x y = (\<not> is_nan x \<and> \<not> is_nan y \<and> (x = y \<or> (is_zero x \<and> is_zero y)))"

text \<open>The conversion \<^verbatim>\<open>(double)v\<close> of a \<^verbatim>\<open>long long\<close>: the nearest double to its signed value.\<close>

definition double_of_long_long :: "long_long \<Rightarrow> double" where
  "double_of_long_long v =
     (if sint v = 0 then zero 0
      else double_of_ratio (if sint v < 0 then 1 else 0) \<bar>sint v\<bar> 1)"

text \<open>The number a finite double stands for.\<close>

definition valof :: "double \<Rightarrow> real" where
  "valof d = of_int (signed_mantissa d) * 2 powi scale d"

section \<open>Native integer division\<close>

text \<open>
  The operators \<^verbatim>\<open>+\<close>, \<^verbatim>\<open>-\<close> and \<^verbatim>\<open>*\<close> on \<^verbatim>\<open>long long\<close> are the wrapping operations of
  the 64-bit word. The operator \<^verbatim>\<open>/\<close> truncates towards zero and has two inputs on which
  it has no result: a zero divisor, and the one quotient that does not fit the word,
  \<^verbatim>\<open>LLONG_MIN / -1\<close>. C leaves both undefined; the division instruction of x86-64
  faults on both and the process is killed.
\<close>

datatype fault = Division_By_Zero | Division_Overflow

definition truncating_quotient :: "int \<Rightarrow> int \<Rightarrow> int" where
  "truncating_quotient a b = sgn a * sgn b * (\<bar>a\<bar> div \<bar>b\<bar>)"

definition llong_div :: "long_long \<Rightarrow> long_long \<Rightarrow> fault + long_long" where
  "llong_div a b =
     (if b = 0 then Inl Division_By_Zero
      else if sint a = - (2 ^ 63) \<and> sint b = - 1 then Inl Division_Overflow
      else Inr (word_of_int (truncating_quotient (sint a) (sint b))))"

section \<open>Constructors\<close>

definition rush_make_integer :: "long_long \<Rightarrow> RushObject" where
  "rush_make_integer v = \<lparr>obj_type = RUSH_INTEGER, obj_value = v\<rparr>"

definition rush_make_float :: "double \<Rightarrow> RushObject" where
  "rush_make_float v = \<lparr>obj_type = RUSH_FLOAT, obj_value = bits_of_double v\<rparr>"

definition rush_make_boolean :: "c_int \<Rightarrow> RushObject" where
  "rush_make_boolean v = \<lparr>obj_type = RUSH_BOOLEAN, obj_value = (if v \<noteq> 0 then 1 else 0)\<rparr>"

text \<open>A \<^verbatim>\<open>const char*\<close> is a 64-bit address; the cast to \<^verbatim>\<open>long long\<close> keeps its bits.\<close>

definition rush_make_string :: "long_long \<Rightarrow> RushObject" where
  "rush_make_string v = \<lparr>obj_type = RUSH_STRING, obj_value = v\<rparr>"

definition rush_make_null :: RushObject where
  "rush_make_null = \<lparr>obj_type = RUSH_NULL, obj_value = 0\<rparr>"

section \<open>Arithmetic operations\<close>

definition rush_add :: "RushObject \<Rightarrow> RushObject \<Rightarrow> RushObject" where
  "rush_add left right =
     (if obj_type left = RUSH_INTEGER \<and> obj_type right = RUSH_INTEGER then
        rush_make_integer (obj_value left + obj_value right)
      else if obj_type left = RUSH_FLOAT \<or> obj_type right = RUSH_FLOAT then
        (let left_val = (if obj_type left = RUSH_FLOAT then double_of_bits (obj_value left)
                         else double_of_long_long (obj_value left));
             right_val = (if obj_type right = RUSH_FLOAT then double_of_bits (obj_value right)
                          else double_of_long_long (obj_value right))
         in rush_make_float (fadd left_val right_val))
      else rush_make_null)"

definition rush_subtract :: "RushObject \<Rightarrow> RushObject \<Rightarrow> RushObject" where
  "rush_subtract left right =
     (if obj_type left = RUSH_INTEGER \<and> obj_type right = RUSH_INTEGER then
        rush_make_integer (obj_value left - obj_value right)
      else if obj_type left = RUSH_FLOAT \<or> obj_type right = RUSH_FLOAT then
        (let left_val = (if obj_type left = RUSH_FLOAT then double_of_bits (obj_value left)
                         else double_of_long_long (obj_value left));
             right_val = (if obj_type right = RUSH_FLOAT then double_of_bits (obj_value right)
                          else double_of_long_long (obj_value right))
         in rush_make_float (fsub left_val right_val))
      else rush_make_null)"

definition rush_multiply :: "RushObject \<Rightarrow> RushObject \<Rightarrow> RushObject" where
  "rush_multiply left right =
     (if obj_type left = RUSH_INTEGER \<and> obj_type right = RUSH_INTEGER then
        rush_make_integer (obj_value left * obj_value right)
      else if obj_type left = RUSH_FLOAT \<or> obj_type right = RUSH_FLOAT then
        (let left_val = (if obj_type left = RUSH_FLOAT then double_of_bits (obj_value left)
                         else double_of_long_long (obj_value left));
             right_val = (if obj_type right = RUSH_FLOAT then double_of_bits (obj_value right)
                          else double_of_long_long (obj_value right))
         in rush_make_float (fmul left_val right_val))
      else rush_make_null)"

text \<open>
  The division guards the zero divisor on both paths and nothing else, so a fault of
  \<^verbatim>\<open>left.value / right.value\<close> is an outcome of the function.
\<close>

definition rush_divide :: "RushObject \<Rightarrow> RushObject \<Rightarrow> fault + RushObject" where
  "rush_divide left right =
     (if obj_type left = RUSH_INTEGER \<and> obj_type right = RUSH_INTEGER then
        (if obj_value right = 0 then Inr rush_make_null
         else case llong_div (obj_value left) (obj_value right) of
                Inl f \<Rightarrow> Inl f
              | Inr q \<Rightarrow> Inr (rush_make_integer q))
      else if obj_type left = RUSH_FLOAT \<or> obj_type right = RUSH_FLOAT then
        (let left_val = (if obj_type left = RUSH_FLOAT then double_of_bits (obj_value left)
                         else double_of_long_long (obj_value left));
             right_val = (if obj_type right = RUSH_FLOAT then double_of_bits (obj_value right)
                          else double_of_long_long (obj_value right))
         in if feq right_val (zero 0) then Inr rush_make_null
            else Inr (rush_make_float (fdiv left_val right_val)))
      else Inr rush_make_null)"

text \<open>
  The floating-point branch of each operation coerces an operand of kind Float by reading
  its payload as a double, and an operand of any other kind by converting its payload
  as an integer. The statements below name that coercion.
\<close>

definition to_double :: "RushObject \<Rightarrow> double" where
  "to_double obj =
     (if obj_type obj = RUSH_FLOAT then double_of_bits (obj_value obj)
      else double_of_long_long (obj_value obj))"

text \<open>The signed 64-bit value that an integer wraps to in two's complement.\<close>

definition wrap64 :: "int \<Rightarrow> int" where
  "wrap64 i = (i + 2 ^ 63) mod 2 ^ 64 - 2 ^ 63"

section \<open>Printers\<close>

text \<open>
  The value printers write through \<^verbatim>\<open>printf\<close>; the standard output stream is the list of
  bytes written so far. Two things come from outside the runtime and are parameters:
  how \<^verbatim>\<open>printf\<close> renders a double under \<^verbatim>\<open>%g\<close>, and the terminated byte string that
  the caller's memory holds at an address.
\<close>

record host =
  printf_g :: "double \<Rightarrow> string"
  string_at :: "long_long \<Rightarrow> string"

definition digit :: "int \<Rightarrow> char" where
  "digit n = ''0123456789'' ! nat n"

function decimal :: "int \<Rightarrow> string" where
  "decimal n = (if n < 10 then [digit n] else decimal (n div 10) @ [digit (n mod 10)])"
  by pat_completeness auto
termination
  by (relation "measure nat") auto

declare decimal.simps [simp del]

text \<open>\<^verbatim>\<open>printf("%lld", v)\<close>: the signed decimal representation.\<close>

definition printf_lld :: "long_long \<Rightarrow> string" where
  "printf_lld v = (if sint v < 0 then CHR ''-'' # decimal (- sint v) else decimal (sint v))"

text \<open>Reading a string of decimal digits back as a number.\<close>

definition digit_value :: "char \<Rightarrow> int" where
  "digit_value c = int (of_char c) - 48"

definition read_decimal :: "string \<Rightarrow> int" where
  "read_decimal s = foldl (\<lambda>acc c. 10 * acc + digit_value c) 0 s"

definition rush_print_object :: "host \<Rightarrow> RushObject \<Rightarrow> string \<Rightarrow> string" where
  "rush_print_object h obj out =
     (if obj_type obj = RUSH_INTEGER then out @ printf_lld (obj_value obj)
      else if obj_type obj = RUSH_FLOAT then out @ printf_g h (double_of_bits (obj_value obj))
      else if obj_type obj = RUSH_BOOLEAN then
        out @ (if obj_value obj \<noteq> 0 then ''true'' else ''false'')
      else if obj_type obj = RUSH_STRING then out @ string_at h (obj_value obj)
      else out @ ''null'')"

definition rush_println :: "host \<Rightarrow> RushObject \<Rightarrow> string \<Rightarrow> string" where
  "rush_println h obj out = rush_print_object h obj out @ [CHR 0x0A]"

section \<open>Facts about the encoding of doubles\<close>

lemmas constructor_defs =
  rush_make_integer_def rush_make_float_def rush_make_boolean_def rush_make_string_def
  rush_make_null_def

lemma double_of_bits_inverse: "double_of_bits (bits_of_double d) = d"
proof -
  have s: "ucast (drop_bit 63 (bits_of_double d)) = d_sign d"
    unfolding bits_of_double_def
    by (rule bit_word_eqI) (auto simp add: bit_simps dest: bit_imp_le_length)
  have e: "ucast (drop_bit 52 (bits_of_double d)) = d_exponent d"
    unfolding bits_of_double_def
    by (rule bit_word_eqI) (auto simp add: bit_simps dest: bit_imp_le_length)
  have f: "ucast (bits_of_double d) = d_fraction d"
    unfolding bits_of_double_def
    by (rule bit_word_eqI) (auto simp add: bit_simps dest: bit_imp_le_length)
  show ?thesis
    by (simp add: double_of_bits_def s e f)
qed

lemma bits_of_double_inverse: "bits_of_double (double_of_bits w) = w"
proof (rule bit_word_eqI)
  fix n assume "n < LENGTH(64)"
  then consider "n < 52" | "52 \<le> n" "n < 63" | "n = 63" by fastforce
  then show "bit (bits_of_double (double_of_bits w)) n = bit w n"
  proof cases
    case 1 then show ?thesis
      unfolding double_of_bits_def bits_of_double_def by (auto simp add: bit_simps)
  next
    case 2 then show ?thesis
      unfolding double_of_bits_def bits_of_double_def by (auto simp add: bit_simps)
  next
    case 3 then show ?thesis
      unfolding double_of_bits_def bits_of_double_def by (auto simp add: bit_simps)
  qed
qed

lemma make_float_not_null: "rush_make_float d \<noteq> rush_make_null"
  by (simp add: rush_make_float_def rush_make_null_def RushObjectType_defs)

lemma valof_literals:
  "valof (double_of_bits 0x3FF8000000000000) = 3 / 2"
  "valof (double_of_bits 0x400C000000000000) = 7 / 2"
  "valof (double_of_bits 0x3FF0000000000000) = 1"
  "valof (double_of_bits 0x4000000000000000) = 2"
  by (simp_all add: valof_def double_of_bits_def signed_mantissa_def mantissa_def scale_def)

section \<open>Facts about machine integers\<close>

lemma sint_wrap64: "sint (word_of_int i :: 64 word) = wrap64 i"
  by (simp add: wrap64_def int_word_sint)

lemma sint_add64: "sint (a + b :: 64 word) = wrap64 (sint a + sint b)"
  using sint_wrap64 [of "sint a + sint b"] by simp

lemma sint_sub64: "sint (a - b :: 64 word) = wrap64 (sint a - sint b)"
  using sint_wrap64 [of "sint a - sint b"] by simp

lemma sint_mul64: "sint (a * b :: 64 word) = wrap64 (sint a * sint b)"
  using sint_wrap64 [of "sint a * sint b"] by simp

lemma truncating_quotient_abs:
  assumes "b \<noteq> 0"
  shows "\<bar>truncating_quotient a b\<bar> \<le> \<bar>a\<bar> div \<bar>b\<bar>"
proof -
  have q0: "0 \<le> \<bar>a\<bar> div \<bar>b\<bar>"
    using assms by (simp add: pos_imp_zdiv_nonneg_iff)
  then have "\<bar>truncating_quotient a b\<bar> = \<bar>sgn a\<bar> * \<bar>sgn b\<bar> * (\<bar>a\<bar> div \<bar>b\<bar>)"
    by (simp add: truncating_quotient_def abs_mult)
  also have "\<dots> \<le> \<bar>a\<bar> div \<bar>b\<bar>"
    using q0 by (simp add: abs_sgn_eq)
  finally show ?thesis .
qed

text \<open>The quotient fits the word on every input but \<^verbatim>\<open>LLONG_MIN / -1\<close>.\<close>

lemma truncating_quotient_bounds:
  assumes "- (2 ^ 63) \<le> a" "a < 2 ^ 63" "b \<noteq> 0" "\<not> (a = - (2 ^ 63) \<and> b = - 1)"
  shows "- (2 ^ 63) \<le> truncating_quotient a b \<and> truncating_quotient a b < 2 ^ 63"
proof (cases "a = - (2 ^ 63)")
  case False
  have "\<bar>a\<bar> div \<bar>b\<bar> \<le> \<bar>a\<bar> div 1"
    by (rule zdiv_mono2) (use assms in auto)
  moreover have "\<bar>a\<bar> < 2 ^ 63" using False assms by auto
  ultimately show ?thesis
    using truncating_quotient_abs [OF assms(3), of a] by auto
next
  case True
  then have b: "b \<noteq> - 1" using assms by auto
  show ?thesis
  proof (cases "b = 1")
    case True
    with \<open>a = - (2 ^ 63)\<close> show ?thesis by (simp add: truncating_quotient_def)
  next
    case False
    then have "2 \<le> \<bar>b\<bar>" using b assms by auto
    then have "\<bar>a\<bar> div \<bar>b\<bar> \<le> \<bar>a\<bar> div 2"
      by (intro zdiv_mono2) auto
    then have "\<bar>a\<bar> div \<bar>b\<bar> \<le> 2 ^ 62" using True by simp
    then show ?thesis
      using truncating_quotient_abs [OF assms(3), of a] by auto
  qed
qed

text \<open>
  Away from that input and the zero divisor, the integer branch of the division returns
  the Integer whose signed payload is the quotient truncated towards zero.
\<close>

lemma rush_divide_integers:
  assumes "b \<noteq> 0" "\<not> (sint a = - (2 ^ 63) \<and> sint b = - 1)"
  shows "\<exists>q. rush_divide (rush_make_integer a) (rush_make_integer b) = Inr (rush_make_integer q) \<and>
     sint q = truncating_quotient (sint a) (sint b)"
proof -
  have ra: "- (2 ^ 63) \<le> sint a" "sint a < 2 ^ 63"
    using sint_ge [of a] sint_lt [of a] by simp_all
  have nz: "sint b \<noteq> 0" using assms(1) by (simp add: signed_eq_0_iff)
  from truncating_quotient_bounds [OF ra nz assms(2)]
  have "sint (word_of_int (truncating_quotient (sint a) (sint b)) :: 64 word)
      = truncating_quotient (sint a) (sint b)"
    by (simp add: sint_sbintrunc' signed_take_bit_int_eq_self)
  then show ?thesis
    using assms by (simp add: rush_divide_def llong_div_def rush_make_integer_def)
qed

section \<open>Facts about the conversion of integers to double\<close>

lemma bitlen_nonneg: "0 \<le> bitlen n"
proof (induction n rule: bitlen.induct)
  case (1 n)
  then show ?case
    by (cases "n \<le> 0") (simp_all add: bitlen.simps [of n])
qed

lemma bitlen_pos: "0 < n \<Longrightarrow> 1 \<le> bitlen n"
  using bitlen_nonneg [of "n div 2"] by (simp add: bitlen.simps [of n])

lemma bitlen_bounds:
  "0 < n \<Longrightarrow> 2 ^ nat (bitlen n - 1) \<le> n \<and> n < 2 ^ nat (bitlen n)"
proof (induction n rule: bitlen.induct)
  case (1 n)
  show ?case
  proof (cases "n = 1")
    case True
    then show ?thesis by (simp add: bitlen.simps [of 1] bitlen.simps [of 0])
  next
    case False
    with "1.prems" have h: "0 < n div 2" by simp
    have ih: "2 ^ nat (bitlen (n div 2) - 1) \<le> n div 2 \<and> n div 2 < 2 ^ nat (bitlen (n div 2))"
      using "1.IH" "1.prems" h by simp
    have b: "bitlen n = 1 + bitlen (n div 2)"
      using "1.prems" by (simp add: bitlen.simps [of n])
    have p: "1 \<le> bitlen (n div 2)" using h by (rule bitlen_pos)
    have e1: "nat (bitlen n - 1) = Suc (nat (bitlen (n div 2) - 1))"
      using b p by simp
    have e2: "nat (bitlen n) = Suc (nat (bitlen (n div 2)))"
      using b p by simp
    show ?thesis
      using ih unfolding e1 e2 by (simp; linarith)
  qed
qed

lemma round_nearest_even_one: "round_nearest_even n 1 = n"
  by (simp add: round_nearest_even_def)

lemma round_nearest_even_ge: "0 < d \<Longrightarrow> n div d \<le> round_nearest_even n d"
  by (simp add: round_nearest_even_def Let_def)

lemma bitlen_one: "bitlen 1 = 1"
  by (simp add: bitlen.simps [of 1] bitlen.simps [of 0])

lemma double_of_ratio_integer:
  assumes "0 < n"
  shows "double_of_ratio s n 1 =
     (let qe = max (bitlen n - 1 - 52) (- 1074);
          k = (if 0 \<le> qe then round_nearest_even n (2 ^ nat qe) else n * 2 ^ nat (- qe))
      in pack s k qe)"
proof -
  have "2 ^ nat (bitlen n - 1) \<le> n" using bitlen_bounds [OF assms] by blast
  moreover have "0 \<le> bitlen n - 1" using bitlen_pos [OF assms] by simp
  ultimately show ?thesis
    by (simp add: double_of_ratio_def bitlen_one Let_def round_nearest_even_one)
qed

lemma integer_quotient_large:
  assumes "0 < n"
  shows "2 ^ 52 \<le> (let qe = max (bitlen n - 1 - 52) (- 1074)
      in if 0 \<le> qe then round_nearest_even n (2 ^ nat qe) else n * 2 ^ nat (- qe))"
proof -
  define e where "e = bitlen n - 1"
  have e0: "0 \<le> e" using bitlen_pos [OF assms] by (simp add: e_def)
  have lo: "2 ^ nat e \<le> n" using bitlen_bounds [OF assms] by (simp add: e_def)
  have qe: "max (e - 52) (- 1074) = e - 52" using e0 by simp
  show ?thesis
  proof (cases "0 \<le> e - 52")
    case True
    then have "nat e = nat (e - 52) + 52" by simp
    then have "(2::int) ^ nat e = 2 ^ 52 * 2 ^ nat (e - 52)"
      by (simp add: power_add)
    then have "2 ^ 52 * 2 ^ nat (e - 52) \<le> n" using lo by simp
    then have "(2 ^ 52 * 2 ^ nat (e - 52)) div 2 ^ nat (e - 52) \<le> n div 2 ^ nat (e - 52)"
      by (intro zdiv_mono1) auto
    then have "2 ^ 52 \<le> n div 2 ^ nat (e - 52)" by simp
    moreover have "n div 2 ^ nat (e - 52) \<le> round_nearest_even n (2 ^ nat (e - 52))"
      by (rule round_nearest_even_ge) simp
    ultimately show ?thesis
      using True unfolding Let_def e_def [symmetric] qe by simp
  next
    case False
    then have "nat e + nat (52 - e) = 52" using e0 by simp
    then have "(2::int) ^ 52 = 2 ^ nat e * 2 ^ nat (52 - e)"
      by (simp flip: power_add)
    also have "\<dots> \<le> n * 2 ^ nat (52 - e)"
      using lo by (intro mult_right_mono) auto
    finally show ?thesis
      using False unfolding Let_def e_def [symmetric] qe by simp
  qed
qed

lemma pack_normal:
  assumes "2 ^ 52 \<le> k"
  shows "pack s k qe =
     (if 2047 \<le> (if 2 ^ 53 \<le> k then qe + 1 else qe) + 1075 then infinity s
      else \<lparr>d_sign = s,
             d_exponent = of_int ((if 2 ^ 53 \<le> k then qe + 1 else qe) + 1075),
             d_fraction = of_int ((if 2 ^ 53 \<le> k then k div 2 else k) - 2 ^ 52)\<rparr>)"
  using assms by (simp add: pack_def Let_def)

lemma exponent_field:
  assumes "0 \<le> e" "e < 2048"
  shows "uint (word_of_int e :: 11 word) = e"
  using assms by (simp add: uint_word_of_int)

lemma pack_large:
  assumes "2 ^ 52 \<le> k" "- 1074 \<le> qe"
  shows "\<not> is_zero (pack s k qe) \<and> \<not> is_nan (pack s k qe)"
proof -
  define e where "e = (if 2 ^ 53 \<le> k then qe + 1 else qe) + 1075"
  have r: "1 \<le> e" using assms by (simp add: e_def)
  have p: "pack s k qe =
     (if 2047 \<le> e then infinity s
      else \<lparr>d_sign = s, d_exponent = of_int e,
             d_fraction = of_int ((if 2 ^ 53 \<le> k then k div 2 else k) - 2 ^ 52)\<rparr>)"
    unfolding e_def by (rule pack_normal [OF assms(1)])
  show ?thesis
  proof (cases "2047 \<le> e")
    case True
    then show ?thesis
      by (simp add: p infinity_def is_zero_def is_nan_def)
  next
    case False
    then have u: "uint (word_of_int e :: 11 word) = e"
      using r by (intro exponent_field) auto
    have "(word_of_int e :: 11 word) \<noteq> 0"
    proof
      assume "(word_of_int e :: 11 word) = 0"
      then have "uint (word_of_int e :: 11 word) = 0" by simp
      then show False using u r by simp
    qed
    moreover have "(word_of_int e :: 11 word) \<noteq> 2047"
    proof
      assume "(word_of_int e :: 11 word) = 2047"
      then have "uint (word_of_int e :: 11 word) = 2047" by simp
      then show False using u False by simp
    qed
    ultimately show ?thesis
      using False by (simp add: p is_zero_def is_nan_def)
  qed
qed

text \<open>An integer converts to a double that compares equal to 0.0 only if it is zero.\<close>

lemma double_of_long_long_zero_iff:
  "feq (double_of_long_long v) (zero 0) \<longleftrightarrow> v = 0"
proof (cases "v = 0")
  case True
  then show ?thesis
    by (simp add: double_of_long_long_def feq_def is_nan_def is_zero_def zero_def)
next
  case False
  then have nz: "sint v \<noteq> 0" by (simp add: signed_eq_0_iff)
  then have n: "0 < \<bar>sint v\<bar>" by simp
  define qe where "qe = max (bitlen \<bar>sint v\<bar> - 1 - 52) (- 1074)"
  define k where "k = (if 0 \<le> qe then round_nearest_even \<bar>sint v\<bar> (2 ^ nat qe)
      else \<bar>sint v\<bar> * 2 ^ nat (- qe))"
  have "double_of_long_long v = pack (if sint v < 0 then 1 else 0) k qe"
    using nz double_of_ratio_integer [OF n]
    by (simp add: double_of_long_long_def Let_def k_def qe_def)
  moreover have "2 ^ 52 \<le> k"
    unfolding k_def qe_def by (rule integer_quotient_large [OF n, unfolded Let_def])
  moreover have "- 1074 \<le> qe" by (simp add: qe_def)
  ultimately have "\<not> is_zero (double_of_long_long v)"
    using pack_large by simp
  moreover have "\<not> is_zero x \<Longrightarrow> \<not> feq x (zero 0)" for x
    by (auto simp add: feq_def is_zero_def zero_def)
  ultimately show ?thesis using False by blast
qed

lemma fraction_field:
  assumes "0 \<le> f" "f < 2 ^ 52"
  shows "uint (word_of_int f :: 52 word) = f"
  using assms by (simp add: uint_word_of_int)

lemma valof_fields:
  assumes "ew \<noteq> 0" "uint ew = e" "uint fw = f"
  shows "valof \<lparr>d_sign = s, d_exponent = ew, d_fraction = fw\<rparr>
     = (if s = 1 then - of_int (2 ^ 52 + f) else of_int (2 ^ 52 + f)) * 2 powi (e - 1075)"
  using assms(1) unfolding assms(2,3) [symmetric]
  by (simp add: valof_def signed_mantissa_def mantissa_def scale_def)

lemma valof_normal:
  assumes "1 \<le> e" "e < 2047" "2 ^ 52 \<le> k" "k < 2 ^ 53"
  shows "valof \<lparr>d_sign = s, d_exponent = of_int e, d_fraction = of_int (k - 2 ^ 52)\<rparr>
     = (if s = 1 then - of_int k else of_int k) * 2 powi (e - 1075)"
proof -
  have u: "uint (word_of_int e :: 11 word) = e"
    using assms by (intro exponent_field) auto
  have nz: "(word_of_int e :: 11 word) \<noteq> 0"
  proof
    assume "(word_of_int e :: 11 word) = 0"
    then have "uint (word_of_int e :: 11 word) = 0" by simp
    then show False using u assms by simp
  qed
  have f: "uint (word_of_int (k - 2 ^ 52) :: 52 word) = k - 2 ^ 52"
    using assms by (intro fraction_field) auto
  have "2 ^ 52 + (k - 2 ^ 52) = k" by simp
  then show ?thesis
    using valof_fields [OF nz u f, of s] by (simp only:)
qed

text \<open>Integers below \<open>2 ^ 53\<close> in magnitude convert without rounding.\<close>

lemma double_of_long_long_exact:
  assumes "\<bar>sint v\<bar> < 2 ^ 53"
  shows "valof (double_of_long_long v) = of_int (sint v)"
proof (cases "sint v = 0")
  case True
  then show ?thesis
    by (simp add: double_of_long_long_def valof_def zero_def signed_mantissa_def mantissa_def)
next
  case False
  define n where "n = \<bar>sint v\<bar>"
  define e where "e = bitlen n - 1"
  define s :: "1 word" where "s = (if sint v < 0 then 1 else 0)"
  have n: "0 < n" using False by (simp add: n_def)
  have e0: "0 \<le> e" using bitlen_pos [OF n] by (simp add: e_def)
  have lo: "2 ^ nat e \<le> n" using bitlen_bounds [OF n] by (simp add: e_def)
  have hi: "n < 2 ^ nat (e + 1)"
    using bitlen_bounds [OF n] by (simp add: e_def)
  have "(2::int) ^ nat e < 2 ^ 53" using lo assms by (simp add: n_def)
  have "nat e < 53"
  proof (rule ccontr)
    assume "\<not> nat e < 53"
    then have "53 \<le> nat e" by simp
    then have "(2::int) ^ 53 \<le> 2 ^ nat e" by (rule power_increasing) simp
    with \<open>(2::int) ^ nat e < 2 ^ 53\<close> show False by simp
  qed
  then have e52: "e \<le> 52" by simp
  define k where "k = n * 2 ^ nat (52 - e)"
  have qe: "max (e - 52) (- 1074) = e - 52"
    using e0 by simp
  have kk: "(if 0 \<le> e - 52 then round_nearest_even n (2 ^ nat (e - 52))
      else n * 2 ^ nat (- (e - 52))) = k"
    using e52 by (auto simp add: k_def round_nearest_even_one)
  have r: "double_of_ratio s n 1 = pack s k (e - 52)"
    using double_of_ratio_integer [OF n, of s] unfolding Let_def e_def [symmetric] qe kk .
  have "double_of_long_long v = double_of_ratio s n 1"
    using False by (simp add: double_of_long_long_def n_def s_def)
  then have d: "double_of_long_long v = pack s k (e - 52)"
    using r by simp
  have klo: "2 ^ 52 \<le> k"
    using integer_quotient_large [OF n] unfolding Let_def e_def [symmetric] qe kk .
  have "nat (e + 1) + nat (52 - e) = 53" using e0 e52 by simp
  then have "(2::int) ^ 53 = 2 ^ nat (e + 1) * 2 ^ nat (52 - e)"
    by (simp flip: power_add)
  moreover have "n * 2 ^ nat (52 - e) < 2 ^ nat (e + 1) * 2 ^ nat (52 - e)"
    using hi by (intro mult_strict_right_mono) auto
  ultimately have khi: "k < 2 ^ 53" by (simp add: k_def)
  have p: "pack s k (e - 52)
      = \<lparr>d_sign = s, d_exponent = of_int (e + 1023), d_fraction = of_int (k - 2 ^ 52)\<rparr>"
    using pack_normal [OF klo, of s "e - 52"] khi e52 by simp
  have v: "valof (double_of_long_long v)
      = (if s = 1 then - of_int k else of_int k) * 2 powi (e - 52)"
    using valof_normal [of "e + 1023" k s] e0 e52 klo khi by (simp add: d p)
  have "real_of_int k * 2 powi (e - 52) = of_int n"
  proof -
    have "e - 52 = - int (nat (52 - e))" using e52 by simp
    then have "(2::real) powi (e - 52) = inverse (2 ^ nat (52 - e))"
      by (simp only: power_int_minus power_int_of_nat)
    then show ?thesis by (simp add: k_def)
  qed
  then have "(if s = 1 then - of_int k else of_int k) * 2 powi (e - 52)
      = (if s = 1 then - real_of_int n else of_int n)"
    by simp
  also have "\<dots> = of_int (if sint v < 0 then - n else n)"
    by (simp add: s_def)
  also have "\<dots> = of_int (sint v)"
  proof -
    have "(if sint v < 0 then - n else n) = sint v" by (simp add: n_def)
    then show ?thesis by (simp only:)
  qed
  finally show ?thesis using v by simp
qed

section \<open>The branches of the arithmetic operations\<close>

lemma float_path:
  assumes "obj_type l = RUSH_FLOAT \<or> obj_type r = RUSH_FLOAT"
  shows "rush_add l r = rush_make_float (fadd (to_double l) (to_double r))"
    and "rush_subtract l r = rush_make_float (fsub (to_double l) (to_double r))"
    and "rush_multiply l r = rush_make_float (fmul (to_double l) (to_double r))"
    and "rush_divide l r =
           Inr (if feq (to_double r) (zero 0) then rush_make_null
                else rush_make_float (fdiv (to_double l) (to_double r)))"
  using assms
  by (auto simp add: rush_add_def rush_subtract_def rush_multiply_def rush_divide_def
      to_double_def Let_def RushObjectType_defs)

lemma to_double_make_float: "to_double (rush_make_float d) = d"
  by (simp add: to_double_def rush_make_float_def double_of_bits_inverse)

lemma to_double_other:
  "obj_type obj \<noteq> RUSH_FLOAT \<Longrightarrow> to_double obj = double_of_long_long (obj_value obj)"
  by (simp add: to_double_def)

lemma feq_zero: "feq (zero s) (zero 0)"
  by (simp add: feq_def is_nan_def is_zero_def zero_def)

section \<open>Type dispatch of the arithmetic operations\<close>

text \<open>
  Claim C1. Each of add, subtract and multiply returns the Null sentinel exactly when
  neither dispatch rule applies, that is, when the operands are not both Integer and
  neither is Float. When both are Integer the result is of kind Integer; when either is
  Float the result is of kind Float.
\<close>

theorem arithmetic_dispatch:
  "(rush_add l r = rush_make_null \<longleftrightarrow>
      \<not> (obj_type l = RUSH_INTEGER \<and> obj_type r = RUSH_INTEGER) \<and>
      \<not> (obj_type l = RUSH_FLOAT \<or> obj_type r = RUSH_FLOAT)) \<and>
   (rush_subtract l r = rush_make_null \<longleftrightarrow>
      \<not> (obj_type l = RUSH_INTEGER \<and> obj_type r = RUSH_INTEGER) \<and>
      \<not> (obj_type l = RUSH_FLOAT \<or> obj_type r = RUSH_FLOAT)) \<and>
   (rush_multiply l r = rush_make_null \<longleftrightarrow>
      \<not> (obj_type l = RUSH_INTEGER \<and> obj_type r = RUSH_INTEGER) \<and>
      \<not> (obj_type l = RUSH_FLOAT \<or> obj_type r = RUSH_FLOAT)) \<and>
   (obj_type l = RUSH_INTEGER \<and> obj_type r = RUSH_INTEGER \<longrightarrow>
      obj_type (rush_add l r) = RUSH_INTEGER \<and>
      obj_type (rush_subtract l r) = RUSH_INTEGER \<and>
      obj_type (rush_multiply l r) = RUSH_INTEGER) \<and>
   (obj_type l = RUSH_FLOAT \<or> obj_type r = RUSH_FLOAT \<longrightarrow>
      obj_type (rush_add l r) = RUSH_FLOAT \<and>
      obj_type (rush_subtract l r) = RUSH_FLOAT \<and>
      obj_type (rush_multiply l r) = RUSH_FLOAT)"
  by (auto simp add: rush_add_def rush_subtract_def rush_multiply_def constructor_defs
      RushObjectType_defs Let_def)

text \<open>
  The theorem at three pairs of operands: two Integers, an Integer with a Float, and two
  Booleans, which no rule covers.
\<close>

theorem arithmetic_dispatch_witness:
  "obj_type (rush_add (rush_make_integer 2) (rush_make_integer 3)) = RUSH_INTEGER \<and>
   obj_type (rush_multiply (rush_make_integer 2) (rush_make_float (zero 0))) = RUSH_FLOAT \<and>
   rush_add (rush_make_boolean 1) (rush_make_boolean 0) = rush_make_null"
proof -
  have i: "obj_type (rush_make_integer 2) = RUSH_INTEGER \<and>
      obj_type (rush_make_integer 3) = RUSH_INTEGER"
    by (simp add: rush_make_integer_def)
  have f: "obj_type (rush_make_integer 2) = RUSH_FLOAT \<or>
      obj_type (rush_make_float (zero 0)) = RUSH_FLOAT"
    by (simp add: rush_make_float_def)
  have b: "\<not> (obj_type (rush_make_boolean 1) = RUSH_INTEGER \<and>
        obj_type (rush_make_boolean 0) = RUSH_INTEGER) \<and>
      \<not> (obj_type (rush_make_boolean 1) = RUSH_FLOAT \<or>
        obj_type (rush_make_boolean 0) = RUSH_FLOAT)"
    by (simp add: rush_make_boolean_def RushObjectType_defs)
  have 1: "obj_type (rush_add (rush_make_integer 2) (rush_make_integer 3)) = RUSH_INTEGER"
    using arithmetic_dispatch [of "rush_make_integer 2" "rush_make_integer 3"] i by blast
  have 2: "obj_type (rush_multiply (rush_make_integer 2) (rush_make_float (zero 0))) = RUSH_FLOAT"
    using arithmetic_dispatch [of "rush_make_integer 2" "rush_make_float (zero 0)"] f by blast
  have 3: "rush_add (rush_make_boolean 1) (rush_make_boolean 0) = rush_make_null"
    using arithmetic_dispatch [of "rush_make_boolean 1" "rush_make_boolean 0"] b by blast
  show ?thesis using 1 2 3 by blast
qed

section \<open>Division by zero\<close>

text \<open>
  Claim C2. Divide returns the Null sentinel on a zero divisor. For every integer \<open>a\<close>,
  dividing the Integer \<open>a\<close> by the Integer zero gives Null. Whenever the operation
  proceeds in floating point (the operands are not both Integer and one is Float) and
  the coerced right operand compares equal to 0.0, the result is Null; in particular
  dividing any Float by the Float 0.0 gives Null.
\<close>

theorem divide_by_zero_is_null:
  "rush_divide (rush_make_integer a) (rush_make_integer 0) = Inr rush_make_null \<and>
   (\<not> (obj_type l = RUSH_INTEGER \<and> obj_type r = RUSH_INTEGER) \<and>
    (obj_type l = RUSH_FLOAT \<or> obj_type r = RUSH_FLOAT) \<and>
    feq (to_double r) (zero 0) \<longrightarrow> rush_divide l r = Inr rush_make_null) \<and>
   rush_divide (rush_make_float x) (rush_make_float (zero 0)) = Inr rush_make_null"
  by (auto simp add: rush_divide_def to_double_def constructor_defs RushObjectType_defs
      Let_def double_of_bits_inverse feq_def is_nan_def is_zero_def zero_def)

text \<open>The theorem at the Integer 5 divided by the Float -0.0, which compares equal to 0.0.\<close>

theorem divide_by_zero_is_null_witness:
  "\<not> (obj_type (rush_make_integer 5) = RUSH_INTEGER \<and>
      obj_type (rush_make_float (zero 1)) = RUSH_INTEGER) \<and>
   (obj_type (rush_make_integer 5) = RUSH_FLOAT \<or>
      obj_type (rush_make_float (zero 1)) = RUSH_FLOAT) \<and>
   feq (to_double (rush_make_float (zero 1))) (zero 0) \<and>
   rush_divide (rush_make_integer 5) (rush_make_float (zero 1)) = Inr rush_make_null"
proof -
  have h: "\<not> (obj_type (rush_make_integer 5) = RUSH_INTEGER \<and>
      obj_type (rush_make_float (zero 1)) = RUSH_INTEGER) \<and>
    (obj_type (rush_make_integer 5) = RUSH_FLOAT \<or>
      obj_type (rush_make_float (zero 1)) = RUSH_FLOAT) \<and>
    feq (to_double (rush_make_float (zero 1))) (zero 0)"
    by (simp add: to_double_make_float feq_zero) (simp add: rush_make_float_def RushObjectType_defs)
  show ?thesis
    using divide_by_zero_is_null [of _ "rush_make_integer 5" "rush_make_float (zero 1)"] h
    by blast
qed

section \<open>Integer division\<close>

text \<open>
  Claim C3. For all integers \<open>a\<close> and \<open>b\<close> with \<open>b\<close> not zero, dividing the Integer
  \<open>a\<close> by the Integer \<open>b\<close> yields an Integer whose payload is the quotient truncated
  towards zero. The function guards the zero divisor only: at \<^verbatim>\<open>LLONG_MIN\<close> divided by
  \<open>-1\<close> the native division has no result and the function returns no value at all.
  On every other input \<open>rush_divide_integers\<close> gives what the claim says.
\<close>

theorem divide_min_by_minus_one:
  "rush_divide (rush_make_integer (- 9223372036854775808)) (rush_make_integer (- 1))
     = Inl Division_Overflow"
  by code_simp

section \<open>Integer addition, subtraction and multiplication\<close>

text \<open>
  Claim C4. For all integers \<open>a\<close> and \<open>b\<close>, add, subtract and multiply of the Integers
  \<open>a\<close> and \<open>b\<close> yield an Integer whose payload, read as a signed word, is the
  mathematical sum, difference or product reduced modulo \<open>2 ^ 64\<close> into the signed
  range.
\<close>

theorem integer_arithmetic_wraps:
  "rush_add (rush_make_integer a) (rush_make_integer b) = rush_make_integer (a + b) \<and>
   sint (a + b) = wrap64 (sint a + sint b) \<and>
   rush_subtract (rush_make_integer a) (rush_make_integer b) = rush_make_integer (a - b) \<and>
   sint (a - b) = wrap64 (sint a - sint b) \<and>
   rush_multiply (rush_make_integer a) (rush_make_integer b) = rush_make_integer (a * b) \<and>
   sint (a * b) = wrap64 (sint a * sint b)"
  by (simp add: rush_add_def rush_subtract_def rush_multiply_def rush_make_integer_def
      sint_add64 sint_sub64 sint_mul64)

section \<open>Adding an Integer and a Float\<close>

lemma two_plus_one_and_a_half:
  "fadd (double_of_long_long 2) (double_of_bits 0x3FF8000000000000)
     = double_of_bits 0x400C000000000000"
  by code_simp

text \<open>
  Claim C5. For every integer \<open>a\<close> and every double \<open>x\<close>, adding the Integer \<open>a\<close> and
  the Float \<open>x\<close> yields a Float whose payload is the bit pattern of the double sum of
  \<open>a\<close> converted to double and \<open>x\<close> itself. The conversion of \<open>a\<close> is numeric: it
  is the double that stands for \<open>a\<close> whenever \<open>a\<close> is below \<open>2 ^ 53\<close> in magnitude
  (and the nearest double beyond). In particular 2 plus 1.5 is the Float 3.5: the
  patterns \<^verbatim>\<open>0x3FF8000000000000\<close> and \<^verbatim>\<open>0x400C000000000000\<close> are the doubles 1.5 and 3.5.
\<close>

theorem add_integer_float:
  "rush_add (rush_make_integer a) (rush_make_float x)
     = rush_make_float (fadd (double_of_long_long a) x) \<and>
   obj_type (rush_add (rush_make_integer a) (rush_make_float x)) = RUSH_FLOAT \<and>
   obj_value (rush_add (rush_make_integer a) (rush_make_float x))
     = bits_of_double (fadd (double_of_long_long a) x) \<and>
   (\<bar>sint a\<bar> < 2 ^ 53 \<longrightarrow> valof (double_of_long_long a) = of_int (sint a)) \<and>
   rush_add (rush_make_integer 2) (rush_make_float (double_of_bits 0x3FF8000000000000))
     = rush_make_float (double_of_bits 0x400C000000000000) \<and>
   valof (double_of_bits 0x3FF8000000000000) = 3 / 2 \<and>
   valof (double_of_bits 0x400C000000000000) = 7 / 2"
proof -
  have g: "rush_add (rush_make_integer b) (rush_make_float y)
     = rush_make_float (fadd (double_of_long_long b) y)" for b y
    by (simp add: rush_add_def rush_make_integer_def rush_make_float_def RushObjectType_defs
        double_of_bits_inverse)
  have c: "rush_add (rush_make_integer 2) (rush_make_float (double_of_bits 0x3FF8000000000000))
     = rush_make_float (double_of_bits 0x400C000000000000)"
    by (simp only: g two_plus_one_and_a_half)
  have k: "obj_type (rush_make_float y) = RUSH_FLOAT \<and>
      obj_value (rush_make_float y) = bits_of_double y" for y
    by (simp add: rush_make_float_def)
  have v: "\<bar>sint a\<bar> < 2 ^ 53 \<longrightarrow> valof (double_of_long_long a) = of_int (sint a)"
    using double_of_long_long_exact [of a] by blast
  show ?thesis
    using c k v valof_literals(1,2) by (simp only: g)
qed

text \<open>The theorem at the Integer 2 and the Float 1.5.\<close>

theorem add_integer_float_witness:
  "\<bar>sint (2 :: long_long)\<bar> < 2 ^ 53 \<and>
   valof (double_of_long_long 2) = 2 \<and>
   rush_add (rush_make_integer 2) (rush_make_float (double_of_bits 0x3FF8000000000000))
     = rush_make_float (double_of_bits 0x400C000000000000) \<and>
   obj_type (rush_add (rush_make_integer 2) (rush_make_float (double_of_bits 0x3FF8000000000000)))
     = RUSH_FLOAT"
proof -
  have h: "\<bar>sint (2 :: long_long)\<bar> < 2 ^ 53" by simp
  have "valof (double_of_long_long 2) = of_int (sint (2 :: long_long))"
    using add_integer_float [of 2 "double_of_bits 0x3FF8000000000000"] h by blast
  then have v: "valof (double_of_long_long 2) = 2" by simp
  show ?thesis
    using add_integer_float [of 2 "double_of_bits 0x3FF8000000000000"] h v by blast
qed

section \<open>The float constructor keeps every bit\<close>

text \<open>
  Claim C6. For every double \<open>d\<close>, reading the payload of \<open>rush_make_float d\<close> back
  as a binary64 datum gives \<open>d\<close> itself: sign, exponent and fraction are all unchanged.
  The payload is the bit pattern of the double, so every 64-bit pattern is also the
  payload of the float made from the double it encodes.
\<close>

theorem make_float_roundtrip:
  "double_of_bits (obj_value (rush_make_float d)) = d \<and>
   obj_type (rush_make_float d) = RUSH_FLOAT \<and>
   obj_value (rush_make_float (double_of_bits w)) = w"
  by (simp add: rush_make_float_def double_of_bits_inverse bits_of_double_inverse)

section \<open>Null operands\<close>

text \<open>
  Claim C7 says that an operation with a Null operand returns Null. It fails when the
  other operand is a Float: the floating-point branch is taken, the Null payload is
  converted as the integer it is, and the result is a Float.
\<close>

theorem null_plus_float_is_float:
  "obj_type (rush_add rush_make_null (rush_make_float (double_of_bits 0x3FF0000000000000)))
     = RUSH_FLOAT \<and>
   rush_add rush_make_null (rush_make_float (double_of_bits 0x3FF0000000000000))
     \<noteq> rush_make_null"
  by (simp add: rush_add_def rush_make_null_def rush_make_float_def RushObjectType_defs Let_def)

text \<open>
  Claim C7, amended. For each of add, subtract, multiply and divide, if either operand is
  of kind Null and neither operand is of kind Float, the result is the Null sentinel.
\<close>

theorem null_operand_without_float:
  "(obj_type l = RUSH_NULL \<or> obj_type r = RUSH_NULL) \<and>
   obj_type l \<noteq> RUSH_FLOAT \<and> obj_type r \<noteq> RUSH_FLOAT \<longrightarrow>
     rush_add l r = rush_make_null \<and> rush_subtract l r = rush_make_null \<and>
     rush_multiply l r = rush_make_null \<and> rush_divide l r = Inr rush_make_null"
  by (auto simp add: rush_add_def rush_subtract_def rush_multiply_def rush_divide_def
      RushObjectType_defs)

theorem null_operand_without_float_witness:
  "(obj_type rush_make_null = RUSH_NULL \<or> obj_type (rush_make_integer 3) = RUSH_NULL) \<and>
   obj_type rush_make_null \<noteq> RUSH_FLOAT \<and> obj_type (rush_make_integer 3) \<noteq> RUSH_FLOAT \<and>
   rush_add rush_make_null (rush_make_integer 3) = rush_make_null \<and>
   rush_subtract rush_make_null (rush_make_integer 3) = rush_make_null \<and>
   rush_multiply rush_make_null (rush_make_integer 3) = rush_make_null \<and>
   rush_divide rush_make_null (rush_make_integer 3) = Inr rush_make_null"
proof -
  have h: "(obj_type rush_make_null = RUSH_NULL \<or> obj_type (rush_make_integer 3) = RUSH_NULL) \<and>
      obj_type rush_make_null \<noteq> RUSH_FLOAT \<and> obj_type (rush_make_integer 3) \<noteq> RUSH_FLOAT"
    by (simp add: rush_make_null_def rush_make_integer_def RushObjectType_defs)
  show ?thesis
    using null_operand_without_float [of rush_make_null "rush_make_integer 3"] h by blast
qed

section \<open>The boolean constructor\<close>

text \<open>
  Claim C8. For every native int \<open>v\<close>, \<open>rush_make_boolean v\<close> is a Value of kind
  Boolean whose payload is exactly 1 when \<open>v\<close> is not zero and exactly 0 when it is.
  The constructor is a total function.
\<close>

theorem make_boolean_normalizes:
  "obj_type (rush_make_boolean v) = RUSH_BOOLEAN \<and>
   (v \<noteq> 0 \<longrightarrow> obj_value (rush_make_boolean v) = 1) \<and>
   (v = 0 \<longrightarrow> obj_value (rush_make_boolean v) = 0)"
  by (simp add: rush_make_boolean_def)

theorem make_boolean_normalizes_witness:
  "obj_value (rush_make_boolean (- 7)) = 1 \<and> obj_value (rush_make_boolean 0) = 0 \<and>
   obj_type (rush_make_boolean (- 7)) = RUSH_BOOLEAN"
proof -
  have n: "(- 7 :: c_int) \<noteq> 0" by simp
  have 1: "obj_value (rush_make_boolean (- 7)) = 1 \<and> obj_type (rush_make_boolean (- 7)) = RUSH_BOOLEAN"
    using make_boolean_normalizes [of "- 7"] n by blast
  have 2: "obj_value (rush_make_boolean 0) = 0"
    using make_boolean_normalizes [of 0] by blast
  show ?thesis using 1 2 by blast
qed

section \<open>The value printers\<close>

lemma digit_value_digit:
  assumes "0 \<le> m" "m < 10"
  shows "digit_value (digit m) = m \<and> digit m \<in> set ''0123456789''"
proof -
  from assms have "m \<in> {0, 1, 2, 3, 4, 5, 6, 7, 8, 9}" by simp presburger
  then show ?thesis
    by (auto simp add: digit_def digit_value_def)
qed

lemma read_decimal_snoc: "read_decimal (s @ [c]) = 10 * read_decimal s + digit_value c"
  by (simp add: read_decimal_def)

text \<open>The digits written for a number that is not negative are decimal digits and read back as it.\<close>

lemma read_decimal_decimal:
  "0 \<le> n \<Longrightarrow> read_decimal (decimal n) = n \<and> set (decimal n) \<subseteq> set ''0123456789''"
proof (induction n rule: decimal.induct)
  case (1 n)
  show ?case
  proof (cases "n < 10")
    case True
    have "decimal n = [digit n]" using True by (simp add: decimal.simps [of n])
    moreover have "read_decimal [digit n] = digit_value (digit n)"
      by (simp add: read_decimal_def)
    ultimately show ?thesis
      using digit_value_digit [OF "1.prems" True] by simp
  next
    case False
    have d: "decimal n = decimal (n div 10) @ [digit (n mod 10)]"
      using False by (simp add: decimal.simps [of n])
    have ih: "read_decimal (decimal (n div 10)) = n div 10 \<and>
        set (decimal (n div 10)) \<subseteq> set ''0123456789''"
      using "1.IH" False "1.prems" by simp
    have m: "digit_value (digit (n mod 10)) = n mod 10 \<and> digit (n mod 10) \<in> set ''0123456789''"
      by (rule digit_value_digit) simp_all
    have "read_decimal (decimal n) = 10 * (n div 10) + n mod 10"
      by (simp only: d read_decimal_snoc ih m)
    then have "read_decimal (decimal n) = n" by simp
    moreover have "set (decimal n) \<subseteq> set ''0123456789''"
      using ih m unfolding d by simp
    ultimately show ?thesis by blast
  qed
qed

lemma printf_lld_values:
  "printf_lld 42 = ''42''"
  "printf_lld 0 = ''0''"
  "printf_lld (- 5) = ''-5''"
  "printf_lld (- 9223372036854775808) = ''-9223372036854775808''"
  "printf_lld 9223372036854775807 = ''9223372036854775807''"
  by code_simp+

lemma print_by_kind:
  "(obj_type obj = RUSH_INTEGER \<longrightarrow>
      rush_print_object h obj out = out @ printf_lld (obj_value obj)) \<and>
   (obj_type obj = RUSH_FLOAT \<longrightarrow>
      rush_print_object h obj out = out @ printf_g h (double_of_bits (obj_value obj))) \<and>
   (obj_type obj = RUSH_BOOLEAN \<longrightarrow>
      rush_print_object h obj out = out @ (if obj_value obj \<noteq> 0 then ''true'' else ''false'')) \<and>
   (obj_type obj = RUSH_STRING \<longrightarrow>
      rush_print_object h obj out = out @ string_at h (obj_value obj)) \<and>
   (obj_type obj \<notin> {RUSH_NULL, RUSH_INTEGER, RUSH_FLOAT, RUSH_BOOLEAN, RUSH_STRING} \<longrightarrow>
      rush_print_object h obj out = out @ ''null'')"
  by (simp add: rush_print_object_def RushObjectType_defs)

lemma printf_lld_signed:
  "(sint v < 0 \<longrightarrow> printf_lld v = CHR ''-'' # decimal \<bar>sint v\<bar>) \<and>
   (0 \<le> sint v \<longrightarrow> printf_lld v = decimal \<bar>sint v\<bar>)"
  by (simp add: printf_lld_def)

text \<open>
  Claim C9. The printer renders by kind, for every Value. An Integer is written as the
  signed decimal representation of its payload: a minus sign when the payload is
  negative, then decimal digits that read back as its magnitude; the Integers 42 and -5
  are written as \<^verbatim>\<open>42\<close> and \<^verbatim>\<open>-5\<close>. A Float is written as \<^verbatim>\<open>printf\<close> renders the double
  its payload encodes under \<^verbatim>\<open>%g\<close>. A Boolean is written as \<^verbatim>\<open>true\<close> when its payload is
  not zero and \<^verbatim>\<open>false\<close> when it is; the Booleans made from 0 and 1 are written as
  \<^verbatim>\<open>false\<close> and \<^verbatim>\<open>true\<close>. A String is written as the bytes at the address in its payload.
  The Null value is written as \<^verbatim>\<open>null\<close>, and so is any Value whose discriminant is none
  of the five ordinals. The println variant writes what the plain printer writes,
  followed by one newline byte.
\<close>

theorem value_printers:
  "rush_print_object h (rush_make_integer 42) out = out @ ''42'' \<and>
   rush_print_object h (rush_make_boolean 0) out = out @ ''false'' \<and>
   rush_print_object h rush_make_null out = out @ ''null'' \<and>
   (obj_type obj \<notin> {RUSH_NULL, RUSH_INTEGER, RUSH_FLOAT, RUSH_BOOLEAN, RUSH_STRING} \<longrightarrow>
      rush_print_object h obj out = out @ ''null'') \<and>
   rush_println h obj out = rush_print_object h obj out @ [CHR 0x0A] \<and>
   (obj_type obj = RUSH_INTEGER \<longrightarrow>
      rush_print_object h obj out = out @ printf_lld (obj_value obj)) \<and>
   (obj_type obj = RUSH_FLOAT \<longrightarrow>
      rush_print_object h obj out = out @ printf_g h (double_of_bits (obj_value obj))) \<and>
   (obj_type obj = RUSH_BOOLEAN \<longrightarrow>
      rush_print_object h obj out = out @ (if obj_value obj \<noteq> 0 then ''true'' else ''false'')) \<and>
   (obj_type obj = RUSH_STRING \<longrightarrow>
      rush_print_object h obj out = out @ string_at h (obj_value obj)) \<and>
   (obj_type obj = RUSH_NULL \<longrightarrow> rush_print_object h obj out = out @ ''null'') \<and>
   rush_print_object h (rush_make_integer v) out = out @ printf_lld v \<and>
   rush_print_object h (rush_make_float d) out = out @ printf_g h d \<and>
   rush_print_object h (rush_make_boolean b) out
     = out @ (if b \<noteq> 0 then ''true'' else ''false'') \<and>
   rush_print_object h (rush_make_string p) out = out @ string_at h p \<and>
   (sint v < 0 \<longrightarrow> printf_lld v = CHR ''-'' # decimal \<bar>sint v\<bar>) \<and>
   (0 \<le> sint v \<longrightarrow> printf_lld v = decimal \<bar>sint v\<bar>) \<and>
   read_decimal (decimal \<bar>sint v\<bar>) = \<bar>sint v\<bar> \<and>
   set (decimal \<bar>sint v\<bar>) \<subseteq> set ''0123456789'' \<and>
   rush_print_object h (rush_make_integer (- 5)) out = out @ ''-5'' \<and>
   rush_print_object h (rush_make_integer 0) out = out @ ''0'' \<and>
   rush_print_object h (rush_make_integer (- 9223372036854775808)) out
     = out @ ''-9223372036854775808'' \<and>
   rush_print_object h (rush_make_boolean 1) out = out @ ''true''"
proof -
  have k: "rush_print_object h (rush_make_integer w) out = out @ printf_lld w" for w
    by (simp add: rush_print_object_def rush_make_integer_def)
  have f: "rush_print_object h (rush_make_float d) out = out @ printf_g h d"
    by (simp add: rush_print_object_def rush_make_float_def RushObjectType_defs
        double_of_bits_inverse)
  have b: "rush_print_object h (rush_make_boolean c) out
      = out @ (if c \<noteq> 0 then ''true'' else ''false'')" for c
    by (simp add: rush_print_object_def rush_make_boolean_def RushObjectType_defs)
  have p: "rush_print_object h (rush_make_string p) out = out @ string_at h p"
    by (simp add: rush_print_object_def rush_make_string_def RushObjectType_defs)
  have n: "rush_print_object h rush_make_null out = out @ ''null''"
    by (simp add: rush_print_object_def rush_make_null_def RushObjectType_defs)
  have z: "obj_type obj = RUSH_NULL \<longrightarrow> rush_print_object h obj out = out @ ''null''"
    by (simp add: rush_print_object_def RushObjectType_defs)
  have l: "rush_println h obj out = rush_print_object h obj out @ [CHR 0x0A]"
    by (simp add: rush_println_def)
  have r: "read_decimal (decimal \<bar>sint v\<bar>) = \<bar>sint v\<bar> \<and>
      set (decimal \<bar>sint v\<bar>) \<subseteq> set ''0123456789''"
    by (rule read_decimal_decimal) simp
  have c: "rush_print_object h (rush_make_integer 42) out = out @ ''42''"
    "rush_print_object h (rush_make_integer (- 5)) out = out @ ''-5''"
    "rush_print_object h (rush_make_integer 0) out = out @ ''0''"
    "rush_print_object h (rush_make_integer (- 9223372036854775808)) out
       = out @ ''-9223372036854775808''"
    by (simp_all only: k printf_lld_values)
  have t: "rush_print_object h (rush_make_boolean 0) out = out @ ''false''"
    "rush_print_object h (rush_make_boolean 1) out = out @ ''true''"
    by (simp_all add: b)
  show ?thesis
    using print_by_kind [of obj h out] printf_lld_signed [of v] k [of v] f b [of b] p n z l r c t
    by blast
qed

text \<open>
  The theorem at one Value of each kind and one of an unknown kind, on a host that
  renders every double as \<^verbatim>\<open>1.5\<close> and holds \<^verbatim>\<open>hi\<close> at every address.
\<close>

theorem value_printers_witness:
  "obj_type (rush_make_integer (- 5)) = RUSH_INTEGER \<and>
   rush_print_object \<lparr>printf_g = \<lambda>d. ''1.5'', string_at = \<lambda>a. ''hi''\<rparr>
     (rush_make_integer (- 5)) [] = ''-5'' \<and>
   obj_type (rush_make_float (zero 0)) = RUSH_FLOAT \<and>
   rush_print_object \<lparr>printf_g = \<lambda>d. ''1.5'', string_at = \<lambda>a. ''hi''\<rparr>
     (rush_make_float (zero 0)) [] = ''1.5'' \<and>
   obj_type (rush_make_boolean 1) = RUSH_BOOLEAN \<and>
   rush_print_object \<lparr>printf_g = \<lambda>d. ''1.5'', string_at = \<lambda>a. ''hi''\<rparr>
     (rush_make_boolean 1) [] = ''true'' \<and>
   obj_type (rush_make_string 4096) = RUSH_STRING \<and>
   rush_print_object \<lparr>printf_g = \<lambda>d. ''1.5'', string_at = \<lambda>a. ''hi''\<rparr>
     (rush_make_string 4096) [] = ''hi'' \<and>
   obj_type rush_make_null = RUSH_NULL \<and>
   rush_print_object \<lparr>printf_g = \<lambda>d. ''1.5'', string_at = \<lambda>a. ''hi''\<rparr>
     rush_make_null [] = ''null'' \<and>
   obj_type \<lparr>obj_type = 7, obj_value = 99\<rparr>
     \<notin> {RUSH_NULL, RUSH_INTEGER, RUSH_FLOAT, RUSH_BOOLEAN, RUSH_STRING} \<and>
   rush_print_object \<lparr>printf_g = \<lambda>d. ''1.5'', string_at = \<lambda>a. ''hi''\<rparr>
     \<lparr>obj_type = 7, obj_value = 99\<rparr> [] = ''null'' \<and>
   rush_println \<lparr>printf_g = \<lambda>d. ''1.5'', string_at = \<lambda>a. ''hi''\<rparr>
     (rush_make_integer 42) [] = ''42'' @ [CHR 0x0A] \<and>
   sint (- 5 :: long_long) < 0 \<and> printf_lld (- 5) = CHR ''-'' # decimal 5 \<and>
   0 \<le> sint (42 :: long_long) \<and> printf_lld 42 = decimal 42"
proof -
  let ?h = "\<lparr>printf_g = \<lambda>d. ''1.5'', string_at = \<lambda>a. ''hi''\<rparr>"
  have ki: "obj_type (rush_make_integer (- 5)) = RUSH_INTEGER"
    by (simp add: rush_make_integer_def)
  have kf: "obj_type (rush_make_float (zero 0)) = RUSH_FLOAT"
    by (simp add: rush_make_float_def)
  have kb: "obj_type (rush_make_boolean 1) = RUSH_BOOLEAN"
    by (simp add: rush_make_boolean_def)
  have ks: "obj_type (rush_make_string 4096) = RUSH_STRING"
    by (simp add: rush_make_string_def)
  have kn: "obj_type rush_make_null = RUSH_NULL"
    by (simp add: rush_make_null_def)
  have ku: "obj_type \<lparr>obj_type = 7, obj_value = 99\<rparr>
     \<notin> {RUSH_NULL, RUSH_INTEGER, RUSH_FLOAT, RUSH_BOOLEAN, RUSH_STRING}"
    by (simp add: RushObjectType_defs)
  have sn: "sint (- 5 :: long_long) < 0" by simp
  have sp: "0 \<le> sint (42 :: long_long)" by simp
  note at = value_printers [where h = ?h and out = "[]" and v = "- 5" and d = "zero 0"
      and b = 1 and p = 4096]
  have "rush_print_object ?h (rush_make_integer (- 5)) []
      = [] @ printf_lld (obj_value (rush_make_integer (- 5)))"
    using at [where obj = "rush_make_integer (- 5)"] ki by blast
  then have i: "rush_print_object ?h (rush_make_integer (- 5)) [] = ''-5''"
    by (simp add: rush_make_integer_def printf_lld_values)
  have "rush_print_object ?h (rush_make_float (zero 0)) []
      = [] @ printf_g ?h (double_of_bits (obj_value (rush_make_float (zero 0))))"
    using at [where obj = "rush_make_float (zero 0)"] kf by blast
  then have f: "rush_print_object ?h (rush_make_float (zero 0)) [] = ''1.5''"
    by simp
  have "rush_print_object ?h (rush_make_boolean 1) []
      = [] @ (if obj_value (rush_make_boolean 1) \<noteq> 0 then ''true'' else ''false'')"
    using at [where obj = "rush_make_boolean 1"] kb by blast
  then have b: "rush_print_object ?h (rush_make_boolean 1) [] = ''true''"
    by (simp add: rush_make_boolean_def)
  have "rush_print_object ?h (rush_make_string 4096) []
      = [] @ string_at ?h (obj_value (rush_make_string 4096))"
    using at [where obj = "rush_make_string 4096"] ks by blast
  then have s: "rush_print_object ?h (rush_make_string 4096) [] = ''hi''"
    by simp
  have "rush_print_object ?h rush_make_null [] = [] @ ''null''"
    using at [where obj = rush_make_null] kn by blast
  then have n: "rush_print_object ?h rush_make_null [] = ''null''"
    by simp
  have "rush_print_object ?h \<lparr>obj_type = 7, obj_value = 99\<rparr> [] = [] @ ''null''"
    using at [where obj = "\<lparr>obj_type = 7, obj_value = 99\<rparr>"] ku by blast
  then have u: "rush_print_object ?h \<lparr>obj_type = 7, obj_value = 99\<rparr> [] = ''null''"
    by simp
  have "rush_println ?h (rush_make_integer 42) []
      = rush_print_object ?h (rush_make_integer 42) [] @ [CHR 0x0A] \<and>
    rush_print_object ?h (rush_make_integer 42) [] = [] @ ''42''"
    using at [where obj = "rush_make_integer 42"] by blast
  then have l: "rush_println ?h (rush_make_integer 42) [] = ''42'' @ [CHR 0x0A]"
    by simp
  have "printf_lld (- 5) = CHR ''-'' # decimal \<bar>sint (- 5 :: long_long)\<bar>"
    using at [where obj = rush_make_null] sn by blast
  then have m: "printf_lld (- 5) = CHR ''-'' # decimal 5"
    by simp
  have "printf_lld 42 = decimal \<bar>sint (42 :: long_long)\<bar>"
    using value_printers [where h = ?h and out = "[]" and v = 42 and d = "zero 0"
        and b = 1 and p = 4096 and obj = rush_make_null] sp
    by blast
  then have q: "printf_lld 42 = decimal 42"
    by simp
  show ?thesis
    using ki kf kb ks kn ku sn sp i f b s n u l m q by blast
qed

section \<open>A Float with a Boolean, String or Null operand\<close>

lemma converted_payloads:
  "double_of_long_long (obj_value (rush_make_boolean 1)) = double_of_bits 0x3FF0000000000000"
  "double_of_long_long (obj_value rush_make_null) = zero 0"
  by code_simp+

text \<open>
  Claim C10 says that an operation with one Float operand and one Boolean, String or Null
  operand never returns Null. It fails for divide: a Null or false right operand converts
  to 0.0, and the zero-divisor guard of the floating-point branch returns Null.
\<close>

theorem float_divided_by_null:
  "rush_divide (rush_make_float (double_of_bits 0x3FF0000000000000)) rush_make_null
     = Inr rush_make_null"
  by code_simp

text \<open>
  Claim C10, amended. If exactly one operand is of kind Float and the other is of kind
  Boolean, String or Null, the other operand's payload is converted as an integer to
  double (the Boolean payload 1 becomes 1.0, the Null payload becomes 0.0, a String's
  address becomes the nearest double to that address) and the operation proceeds in
  floating point. Add, subtract and multiply then return a Float and never the Null
  sentinel. Divide returns the Float quotient unless the converted right operand compares
  equal to 0.0, in which case it returns the Null sentinel; a right operand that is not a
  Float converts to 0.0 exactly when its payload is zero.
\<close>

theorem float_with_non_numeric:
  assumes "obj_type l = RUSH_FLOAT \<and> obj_type r \<in> {RUSH_BOOLEAN, RUSH_STRING, RUSH_NULL} \<or>
           obj_type r = RUSH_FLOAT \<and> obj_type l \<in> {RUSH_BOOLEAN, RUSH_STRING, RUSH_NULL}"
  shows "rush_add l r = rush_make_float (fadd (to_double l) (to_double r)) \<and>
         rush_subtract l r = rush_make_float (fsub (to_double l) (to_double r)) \<and>
         rush_multiply l r = rush_make_float (fmul (to_double l) (to_double r)) \<and>
         rush_divide l r =
           Inr (if feq (to_double r) (zero 0) then rush_make_null
                else rush_make_float (fdiv (to_double l) (to_double r))) \<and>
         rush_add l r \<noteq> rush_make_null \<and> rush_subtract l r \<noteq> rush_make_null \<and>
         rush_multiply l r \<noteq> rush_make_null \<and>
         (obj_type l \<noteq> RUSH_FLOAT \<longrightarrow> to_double l = double_of_long_long (obj_value l)) \<and>
         (obj_type r \<noteq> RUSH_FLOAT \<longrightarrow> to_double r = double_of_long_long (obj_value r)) \<and>
         (obj_type r \<noteq> RUSH_FLOAT \<longrightarrow> (feq (to_double r) (zero 0) \<longleftrightarrow> obj_value r = 0)) \<and>
         double_of_long_long (obj_value (rush_make_boolean 1)) = double_of_bits 0x3FF0000000000000 \<and>
         valof (double_of_bits 0x3FF0000000000000) = 1 \<and>
         double_of_long_long (obj_value rush_make_null) = zero 0"
proof -
  from assms have f: "obj_type l = RUSH_FLOAT \<or> obj_type r = RUSH_FLOAT" by blast
  have t: "(obj_type l \<noteq> RUSH_FLOAT \<longrightarrow> to_double l = double_of_long_long (obj_value l)) \<and>
      (obj_type r \<noteq> RUSH_FLOAT \<longrightarrow> to_double r = double_of_long_long (obj_value r))"
    by (simp add: to_double_def)
  have z: "obj_type r \<noteq> RUSH_FLOAT \<longrightarrow> (feq (to_double r) (zero 0) \<longleftrightarrow> obj_value r = 0)"
    by (simp add: to_double_def double_of_long_long_zero_iff)
  have n: "rush_add l r \<noteq> rush_make_null \<and> rush_subtract l r \<noteq> rush_make_null \<and>
      rush_multiply l r \<noteq> rush_make_null"
    by (simp add: float_path(1,2,3) [OF f] make_float_not_null)
  show ?thesis
    using float_path [OF f] t z n converted_payloads valof_literals(3) by blast
qed

lemma one_and_a_half_plus_one:
  "fadd (double_of_bits 0x3FF8000000000000) (double_of_long_long 1)
     = double_of_bits 0x4004000000000000"
  by code_simp

text \<open>The theorem at the Float 1.5 plus the Boolean true: the Float 2.5.\<close>

theorem float_with_non_numeric_witness:
  "obj_type (rush_make_float (double_of_bits 0x3FF8000000000000)) = RUSH_FLOAT \<and>
   obj_type (rush_make_boolean 1) \<in> {RUSH_BOOLEAN, RUSH_STRING, RUSH_NULL} \<and>
   rush_add (rush_make_float (double_of_bits 0x3FF8000000000000)) (rush_make_boolean 1)
     = rush_make_float (double_of_bits 0x4004000000000000)"
proof -
  let ?l = "rush_make_float (double_of_bits 0x3FF8000000000000)"
  let ?r = "rush_make_boolean 1"
  have h: "obj_type ?l = RUSH_FLOAT \<and> obj_type ?r \<in> {RUSH_BOOLEAN, RUSH_STRING, RUSH_NULL}"
    by (simp add: rush_make_float_def rush_make_boolean_def)
  then have h': "obj_type ?l = RUSH_FLOAT \<and> obj_type ?r \<in> {RUSH_BOOLEAN, RUSH_STRING, RUSH_NULL} \<or>
      obj_type ?r = RUSH_FLOAT \<and> obj_type ?l \<in> {RUSH_BOOLEAN, RUSH_STRING, RUSH_NULL}"
    by blast
  from float_with_non_numeric [OF h']
  have a: "rush_add ?l ?r = rush_make_float (fadd (to_double ?l) (to_double ?r))"
    by blast
  have tl: "to_double ?l = double_of_bits 0x3FF8000000000000"
    by (rule to_double_make_float)
  have tr: "to_double ?r = double_of_long_long 1"
    by (simp add: to_double_def rush_make_boolean_def RushObjectType_defs)
  have "rush_add ?l ?r = rush_make_float (double_of_bits 0x4004000000000000)"
    by (simp only: a tl tr one_and_a_half_plus_one)
  then show ?thesis using h by blast
qed

end
